theory Spec2Isabelle
  imports Main "HOL-Library.Word"
begin

section \<open>JavaScript strings\<close>

text \<open>
  A JavaScript string is a sequence of 16-bit code units. \<open>String.prototype.trim\<close>
  removes the code units of the ECMAScript productions WhiteSpace and LineTerminator
  from both ends. The empty string is the only falsy string.
\<close>

type_synonym code_unit = "16 word"
type_synonym jsstring = "code_unit list"

definition js :: "string \<Rightarrow> jsstring" where
  "js cs = map (\<lambda>c. of_nat (of_char c)) cs"

definition is_white_space :: "code_unit \<Rightarrow> bool" where
  "is_white_space c \<longleftrightarrow>
     c = 0x0009 \<or> c = 0x000A \<or> c = 0x000B \<or> c = 0x000C \<or> c = 0x000D \<or>
     c = 0x0020 \<or> c = 0x00A0 \<or> c = 0x1680 \<or> (0x2000 \<le> c \<and> c \<le> 0x200A) \<or>
     c = 0x2028 \<or> c = 0x2029 \<or> c = 0x202F \<or> c = 0x205F \<or> c = 0x3000 \<or>
     c = 0xFEFF"

definition trim :: "jsstring \<Rightarrow> jsstring" where
  "trim s = rev (dropWhile is_white_space (rev (dropWhile is_white_space s)))"

definition truthy :: "jsstring \<Rightarrow> bool" where
  "truthy s \<longleftrightarrow> s \<noteq> []"

text \<open>\<open>x || undefined\<close> on a string \<open>x\<close>; \<open>None\<close> is \<open>undefined\<close>.\<close>

definition or_undefined :: "jsstring \<Rightarrow> jsstring option" where
  "or_undefined x = (if truthy x then Some x else None)"

section \<open>Data model\<close>

text \<open>
  A perk as the collaborator returns it. The component reads \<open>merchant\<close> for the
  derived list; the other fields are only rendered. \<open>merchant\<close> is optional:
  \<open>None\<close> stands for a missing, \<open>undefined\<close> or \<open>null\<close> field, and a
  merchant that is present is a string. The numeric
  \<open>discountPercent\<close> and the \<open>createdBy\<close> reference are display data and are
  left out.
\<close>

record perk =
  perk_id :: jsstring
  title :: jsstring
  category :: jsstring
  merchant :: "jsstring option"
  description :: "jsstring option"

text \<open>The \<open>params\<close> object handed to \<open>api.get('/perks/all', { params })\<close>.\<close>

record params =
  search_param :: "jsstring option"
  merchant_param :: "jsstring option"

text \<open>
  How a request settles: it resolves with the array \<open>res.data.perks\<close>, or it
  rejects with an error whose \<open>err?.response?.data?.message\<close> is a string or, when
  any link of the optional chain is missing, \<open>undefined\<close> (\<open>None\<close>). A response
  without \<open>data\<close> makes \<open>res.data.perks\<close> throw inside the \<open>try\<close>; the
  \<open>catch\<close> then sees an error without \<open>response\<close>, which is \<open>Rejected None\<close>.
\<close>

datatype outcome = Resolved "perk list" | Rejected "jsstring option"

section \<open>The derived merchant list\<close>

text \<open>
  \<open>new Set(iterable)\<close> adds the elements one by one; an element already in the set is
  skipped, and a set iterates in insertion order. The accumulator is the set built so
  far, as the list of its elements in insertion order.
\<close>

fun set_add_all :: "'a list \<Rightarrow> 'a list \<Rightarrow> 'a list" where
  "set_add_all acc [] = acc"
| "set_add_all acc (x # xs) = set_add_all (if x \<in> set acc then acc else acc @ [x]) xs"

definition new_Set :: "'a list \<Rightarrow> 'a list" where
  "new_Set xs = set_add_all [] xs"

text \<open>
  \<open>perks.map(perk => perk.merchant).filter(merchant => merchant && merchant.trim())\<close>:
  a merchant is kept when it is defined, truthy, and its trimmed text is truthy. The
  kept value is the field as it is, not the trimmed text.
\<close>

definition keep_merchant :: "jsstring option \<Rightarrow> bool" where
  "keep_merchant m = (case m of None \<Rightarrow> False | Some t \<Rightarrow> truthy t \<and> truthy (trim t))"

definition merchants_of :: "perk list \<Rightarrow> jsstring list" where
  "merchants_of ps = map the (filter keep_merchant (map merchant ps))"

definition unique_of :: "perk list \<Rightarrow> jsstring list" where
  "unique_of ps = new_Set (merchants_of ps)"

section \<open>The component and its environment\<close>

text \<open>
  The state of the system: the \<open>useState\<close> cells of \<open>AllPerks\<close> and of its
  \<open>useDebounce\<close> hook, and what the browser holds for the component.
  \<^item> \<open>timers\<close>: the pending \<open>setTimeout\<close> calls, each with its handle, the
    \<open>value\<close> its callback captured, and the milliseconds left before it fires;
  \<^item> \<open>handler\<close>: the handle captured by the cleanup function of the last run of the
    debounce effect; \<open>next_handle\<close>: the next handle \<open>setTimeout\<close> returns;
  \<^item> \<open>issued\<close>: every \<open>api.get\<close> call made so far, in order; a request is
    identified by its position in this list;
  \<^item> \<open>pending\<close>: the requests that have not settled yet;
  \<^item> \<open>debounce_updates\<close>: every call of \<open>setDebouncedValue\<close> so far, in order.
\<close>

record state =
  perks :: "perk list"
  searchQuery :: jsstring
  merchantFilter :: jsstring
  uniqueMerchants :: "jsstring list"
  loading :: bool
  error :: jsstring
  debouncedValue :: jsstring
  mounted :: bool
  timers :: "(nat \<times> jsstring \<times> nat) list"
  handler :: nat
  next_handle :: nat
  issued :: "params list"
  pending :: "nat list"
  debounce_updates :: "jsstring list"

definition debounce_delay :: nat where
  "debounce_delay = 500"

definition fallback_message :: jsstring where
  "fallback_message = js ''Failed to load perks''"

subsection \<open>useDebounce\<close>

text \<open>
  The effect of \<open>useDebounce\<close>, with dependencies \<open>[value, delay]\<close>: its body calls
  \<open>setTimeout\<close> and keeps the handle; its cleanup calls \<open>clearTimeout\<close> on that
  handle. Clearing a handle that has fired already does nothing.
\<close>

definition setTimeout :: "jsstring \<Rightarrow> nat \<Rightarrow> state \<Rightarrow> state" where
  "setTimeout v delay s =
     s\<lparr>timers := timers s @ [(next_handle s, v, delay)],
       handler := next_handle s,
       next_handle := Suc (next_handle s)\<rparr>"

definition clearTimeout :: "nat \<Rightarrow> state \<Rightarrow> state" where
  "clearTimeout h s = s\<lparr>timers := filter (\<lambda>t. fst t \<noteq> h) (timers s)\<rparr>"

definition useDebounce_effect :: "state \<Rightarrow> state" where
  "useDebounce_effect s = setTimeout (searchQuery s) debounce_delay s"

definition useDebounce_cleanup :: "state \<Rightarrow> state" where
  "useDebounce_cleanup s = clearTimeout (handler s) s"

subsection \<open>loadAllPerks\<close>

text \<open>
  \<open>loadAllPerks\<close> up to its \<open>await\<close>: it clears the error, sets the loading flag and
  issues the request, reading \<open>debouncedSearchQuery\<close> and \<open>merchantFilter\<close> of the
  current render.
\<close>

definition request_params :: "state \<Rightarrow> params" where
  "request_params s =
     \<lparr>search_param = or_undefined (trim (debouncedValue s)),
      merchant_param = or_undefined (trim (merchantFilter s))\<rparr>"

definition loadAllPerks :: "state \<Rightarrow> state" where
  "loadAllPerks s =
     s\<lparr>error := [],
       loading := True,
       issued := issued s @ [request_params s],
       pending := pending s @ [length (issued s)]\<rparr>"

text \<open>The effect with dependencies \<open>[perks]\<close>.\<close>

definition merchants_effect :: "state \<Rightarrow> state" where
  "merchants_effect s = s\<lparr>uniqueMerchants := unique_of (perks s)\<rparr>"

text \<open>
  \<open>loadAllPerks\<close> after its \<open>await\<close>: on success \<open>setPerks(res.data.perks)\<close>, on
  failure \<open>setError(err?.response?.data?.message || 'Failed to load perks')\<close>, and
  \<open>setLoading(false)\<close> in both cases. The response array is a new object, so the
  effect on \<open>[perks]\<close> runs after every successful response.
\<close>

definition error_message :: "jsstring option \<Rightarrow> jsstring" where
  "error_message msg =
     (case msg of None \<Rightarrow> fallback_message
      | Some m \<Rightarrow> if truthy m then m else fallback_message)"

definition loadAllPerks_settled :: "outcome \<Rightarrow> state \<Rightarrow> state" where
  "loadAllPerks_settled out s =
     (case out of
        Resolved ps \<Rightarrow> merchants_effect (s\<lparr>perks := ps, loading := False\<rparr>)
      | Rejected msg \<Rightarrow> s\<lparr>error := error_message msg, loading := False\<rparr>)"

subsection \<open>Rendering\<close>

text \<open>
  After the state changes React renders again and runs, in the order of their
  declaration, the effects one of whose dependencies differs from the previous
  render: the debounce effect on \<open>[value, delay]\<close> (cleanup first, then its body; the
  delay is constant) and the auto-search effect on
  \<open>[debouncedSearchQuery, merchantFilter]\<close>. A state update that changes nothing
  re-runs no effect.
\<close>

definition commit :: "state \<Rightarrow> state \<Rightarrow> state" where
  "commit prev s =
     (let s1 = (if searchQuery s \<noteq> searchQuery prev
                then useDebounce_effect (useDebounce_cleanup s) else s);
          s2 = (if debouncedValue s \<noteq> debouncedValue prev
                   \<or> merchantFilter s \<noteq> merchantFilter prev
                then loadAllPerks s1 else s1)
      in s2)"

subsection \<open>Event handlers\<close>

definition handleSearch :: "state \<Rightarrow> state" where
  "handleSearch s = loadAllPerks s"

definition handleSearchQueryChange :: "jsstring \<Rightarrow> state \<Rightarrow> state" where
  "handleSearchQueryChange v s = s\<lparr>searchQuery := v\<rparr>"

definition handleMerchantFilterChange :: "jsstring \<Rightarrow> state \<Rightarrow> state" where
  "handleMerchantFilterChange v s = s\<lparr>merchantFilter := v\<rparr>"

definition handleReset :: "state \<Rightarrow> state" where
  "handleReset s = s\<lparr>searchQuery := [], merchantFilter := [], error := []\<rparr>"

subsection \<open>Timers\<close>

text \<open>
  The callback of a timer calls \<open>setDebouncedValue(value)\<close>. On an unmounted
  component the call changes nothing.
\<close>

definition fire :: "jsstring \<Rightarrow> state \<Rightarrow> state" where
  "fire v s =
     (let s' = s\<lparr>debounce_updates := debounce_updates s @ [v]\<rparr>
      in if mounted s' then commit s' (s'\<lparr>debouncedValue := v\<rparr>) else s')"

text \<open>
  \<open>d\<close> milliseconds pass with no other event: the timers with at most \<open>d\<close>
  milliseconds left fire, the earliest first, and the others have \<open>d\<close> less to wait.
\<close>

definition tick :: "nat \<Rightarrow> state \<Rightarrow> state" where
  "tick d s =
     (let due = filter (\<lambda>t. snd (snd t) \<le> d) (timers s);
          rest = map (\<lambda>(h, v, r). (h, v, r - d)) (filter (\<lambda>t. \<not> snd (snd t) \<le> d) (timers s))
      in fold (\<lambda>t. fire (fst (snd t))) (sort_key (\<lambda>t. snd (snd t)) due) (s\<lparr>timers := rest\<rparr>))"

subsection \<open>Events\<close>

text \<open>
  What can happen to the component: the user edits the search input, picks a merchant,
  submits the form, presses Reset or Try Again (rendered only while \<open>error\<close> is
  truthy); time passes; a request settles; the component is unmounted. User events
  reach a mounted component only, and a state setter called after the unmount changes
  nothing.
\<close>

datatype event =
    SearchInput jsstring
  | MerchantInput jsstring
  | Submit
  | Reset
  | Retry
  | Tick nat
  | Settle nat outcome
  | Unmount

definition settle :: "nat \<Rightarrow> outcome \<Rightarrow> state \<Rightarrow> state" where
  "settle i out s =
     (if i \<in> set (pending s)
      then (let s' = s\<lparr>pending := removeAll i (pending s)\<rparr>
            in if mounted s' then loadAllPerks_settled out s' else s')
      else s)"

definition unmount :: "state \<Rightarrow> state" where
  "unmount s = (useDebounce_cleanup s)\<lparr>mounted := False\<rparr>"

fun step :: "event \<Rightarrow> state \<Rightarrow> state" where
  "step (SearchInput v) s = (if mounted s then commit s (handleSearchQueryChange v s) else s)"
| "step (MerchantInput v) s = (if mounted s then commit s (handleMerchantFilterChange v s) else s)"
| "step Submit s = (if mounted s then commit s (handleSearch s) else s)"
| "step Reset s = (if mounted s then commit s (handleReset s) else s)"
| "step Retry s = (if mounted s \<and> truthy (error s) then commit s (loadAllPerks s) else s)"
| "step (Tick d) s = tick d s"
| "step (Settle i out) s = settle i out s"
| "step Unmount s = (if mounted s then unmount s else s)"

definition run :: "event list \<Rightarrow> state \<Rightarrow> state" where
  "run evs s = fold step evs s"

subsection \<open>Mounting\<close>

text \<open>
  The first render has the initial values of the \<open>useState\<close> cells; then every effect
  runs once, in the order of declaration: the debounce effect, the (empty) effect on
  \<open>[]\<close>, the auto-search effect and the merchant effect. (The second run of the
  effects that a development build under \<open>StrictMode\<close> adds is not modelled.)
\<close>

definition initial :: state where
  "initial =
     \<lparr>perks = [], searchQuery = [], merchantFilter = [], uniqueMerchants = [],
      loading = True, error = [], debouncedValue = [], mounted = True,
      timers = [], handler = 0, next_handle = 0, issued = [], pending = [],
      debounce_updates = []\<rparr>"

definition mount :: state where
  "mount = merchants_effect (loadAllPerks (useDebounce_effect initial))"

section \<open>Notions used by the properties\<close>

text \<open>
  The debounce invariant. While the component is mounted, either no timer is pending
  and the debounced value has caught up with the search text, or exactly one timer is
  pending: the one the current cleanup function would clear, carrying the current
  search text, with at most the debounce delay left. After the unmount no timer is
  pending.
\<close>

definition debounce_inv :: "state \<Rightarrow> bool" where
  "debounce_inv s \<longleftrightarrow>
     (if mounted s
      then (case timers s of
              [] \<Rightarrow> debouncedValue s = searchQuery s
            | [t] \<Rightarrow> fst t = handler s \<and> fst (snd t) = searchQuery s
                      \<and> snd (snd t) \<le> debounce_delay
            | _ \<Rightarrow> False)
      else timers s = [])"

text \<open>
  A burst of typing after a first keystroke: each further change \<open>(d, v)\<close> comes
  \<open>d\<close> milliseconds after the one before and sets the input to \<open>v\<close>. The burst is
  rapid when every gap is shorter than the debounce delay; a change sets a text
  different from the one before it (React reports no change event otherwise).
\<close>

fun typing :: "(nat \<times> jsstring) list \<Rightarrow> event list" where
  "typing [] = []"
| "typing ((d, v) # rest) = Tick d # SearchInput v # typing rest"

fun rapid_changes :: "jsstring \<Rightarrow> (nat \<times> jsstring) list \<Rightarrow> bool" where
  "rapid_changes prev [] = True"
| "rapid_changes prev ((d, v) # rest) =
     (d < debounce_delay \<and> v \<noteq> prev \<and> rapid_changes v rest)"

text \<open>
  The merchant set as the specification words it: the distinct, non-empty, trimmed
  merchant names of the list.
\<close>

definition spec_uniqueMerchants :: "perk list \<Rightarrow> jsstring set" where
  "spec_uniqueMerchants ps =
     set (filter (\<lambda>t. t \<noteq> []) (map trim (List.map_filter merchant ps)))"

section \<open>Basic facts\<close>

lemmas eval_defs = commit_def handleSearch_def handleSearchQueryChange_def
  handleMerchantFilterChange_def handleReset_def loadAllPerks_def request_params_def
  useDebounce_effect_def useDebounce_cleanup_def setTimeout_def clearTimeout_def
  tick_def fire_def settle_def loadAllPerks_settled_def merchants_effect_def
  error_message_def unmount_def unique_of_def new_Set_def merchants_of_def keep_merchant_def
  or_undefined_def truthy_def trim_def is_white_space_def js_def debounce_delay_def
  fallback_message_def Let_def

lemma trim_Nil: "trim [] = []"
  by (simp add: trim_def)

lemma or_undefined_Nil: "or_undefined [] = None"
  by (simp add: or_undefined_def truthy_def)

lemma or_undefined_cases: "or_undefined x = (if x = [] then None else Some x)"
  by (simp add: or_undefined_def truthy_def)

lemma error_message_truthy: "error_message msg \<noteq> []"
  by (simp add: error_message_def fallback_message_def js_def truthy_def split: option.split)

lemma run_Nil [simp]: "run [] s = s"
  by (simp add: run_def)

lemma run_Cons [simp]: "run (e # evs) s = run evs (step e s)"
  by (simp add: run_def)

lemma run_append: "run (xs @ ys) s = run ys (run xs s)"
  by (simp add: run_def)

lemma mount_eq:
  "mount = \<lparr>perks = [], searchQuery = [], merchantFilter = [], uniqueMerchants = [],
      loading = True, error = [], debouncedValue = [], mounted = True,
      timers = [(0, [], debounce_delay)], handler = 0, next_handle = Suc 0,
      issued = [\<lparr>search_param = None, merchant_param = None\<rparr>], pending = [0],
      debounce_updates = []\<rparr>"
  by (simp add: mount_def merchants_effect_def loadAllPerks_def request_params_def
      useDebounce_effect_def setTimeout_def initial_def trim_Nil or_undefined_Nil
      unique_of_def new_Set_def merchants_of_def)

lemma mounted_mount: "mounted mount"
  by (simp add: mount_eq)

subsection \<open>Rendering and the handlers\<close>

lemma commit_same:
  "searchQuery s = searchQuery prev \<Longrightarrow> debouncedValue s = debouncedValue prev \<Longrightarrow>
   merchantFilter s = merchantFilter prev \<Longrightarrow> commit prev s = s"
  by (simp add: commit_def)

lemma commit_query_same:
  "searchQuery s = searchQuery prev \<Longrightarrow>
   commit prev s =
     (if debouncedValue s \<noteq> debouncedValue prev \<or> merchantFilter s \<noteq> merchantFilter prev
      then loadAllPerks s else s)"
  by (simp add: commit_def)

lemma step_Submit: "mounted s \<Longrightarrow> step Submit s = loadAllPerks s"
  by (simp add: handleSearch_def commit_same loadAllPerks_def)

lemma search_same: "mounted s \<Longrightarrow> step (SearchInput (searchQuery s)) s = s"
  by (simp add: commit_def handleSearchQueryChange_def)

subsection \<open>Timers\<close>

lemma tick_idle: "timers s = [] \<Longrightarrow> tick d s = s"
  by (simp add: tick_def)

lemma tick_wait:
  "timers s = [(h, v, r)] \<Longrightarrow> d < r \<Longrightarrow> tick d s = s\<lparr>timers := [(h, v, r - d)]\<rparr>"
  by (simp add: tick_def)

lemma tick_fire:
  "timers s = [(h, v, r)] \<Longrightarrow> r \<le> d \<Longrightarrow> tick d s = fire v (s\<lparr>timers := []\<rparr>)"
  by (simp add: tick_def)

lemma fire_mounted:
  "mounted s \<Longrightarrow> fire v s =
     (if v = debouncedValue s
      then s\<lparr>debounce_updates := debounce_updates s @ [v]\<rparr>
      else loadAllPerks (s\<lparr>debounce_updates := debounce_updates s @ [v], debouncedValue := v\<rparr>))"
  by (simp add: fire_def commit_def Let_def)

lemma idle_ticks: "timers s = [] \<Longrightarrow> run (map Tick ds) s = s"
  by (induction ds) (simp_all add: tick_idle)

subsection \<open>The debounce invariant holds in every reachable state\<close>

lemma debounce_inv_iff:
  "debounce_inv s \<longleftrightarrow>
     (if mounted s
      then timers s = [] \<and> debouncedValue s = searchQuery s
           \<or> (\<exists>r. r \<le> debounce_delay \<and> timers s = [(handler s, searchQuery s, r)])
      else timers s = [])"
  by (auto simp: debounce_inv_def split: list.splits)

lemma debounce_inv_cases:
  assumes "debounce_inv s" "mounted s"
  obtains (idle) "timers s = []" "debouncedValue s = searchQuery s"
  | (armed) r where "timers s = [(handler s, searchQuery s, r)]" "r \<le> debounce_delay"
  using assms by (auto simp: debounce_inv_iff)

lemma search_change:
  assumes "mounted s" "debounce_inv s" "v \<noteq> searchQuery s"
  shows "step (SearchInput v) s =
           s\<lparr>searchQuery := v, timers := [(next_handle s, v, debounce_delay)],
             handler := next_handle s, next_handle := Suc (next_handle s)\<rparr>"
  using assms(2,1)
proof (cases rule: debounce_inv_cases)
  case idle
  with assms show ?thesis
    by (simp add: commit_def handleSearchQueryChange_def useDebounce_effect_def
        useDebounce_cleanup_def setTimeout_def clearTimeout_def)
next
  case (armed r)
  with assms show ?thesis
    by (simp add: commit_def handleSearchQueryChange_def useDebounce_effect_def
        useDebounce_cleanup_def setTimeout_def clearTimeout_def)
qed

lemma debounce_inv_mount: "debounce_inv mount"
  by (simp add: debounce_inv_iff mount_eq)

lemma debounce_inv_tick:
  assumes "debounce_inv s"
  shows "debounce_inv (tick d s)"
proof (cases "mounted s")
  case False
  with assms show ?thesis by (simp add: debounce_inv_iff tick_idle)
next
  case True
  from assms True show ?thesis
  proof (cases rule: debounce_inv_cases)
    case idle
    with assms show ?thesis by (simp add: tick_idle)
  next
    case (armed r)
    show ?thesis
    proof (cases "d < r")
      case True
      with armed \<open>mounted s\<close> show ?thesis
        by (simp add: tick_wait debounce_inv_iff)
    next
      case False
      with armed \<open>mounted s\<close> show ?thesis
        by (simp add: tick_fire fire_mounted debounce_inv_iff loadAllPerks_def)
    qed
  qed
qed

lemma debounce_inv_step:
  assumes "debounce_inv s"
  shows "debounce_inv (step e s)"
proof (cases "mounted s")
  case False
  with assms show ?thesis
    by (cases e) (simp_all add: debounce_inv_tick settle_def Let_def, simp_all add: debounce_inv_iff)
next
  case True
  show ?thesis
  proof (cases e)
    case (SearchInput v)
    show ?thesis
    proof (cases "v = searchQuery s")
      case True
      with assms \<open>mounted s\<close> SearchInput show ?thesis
        by (simp add: search_same del: step.simps)
    next
      case False
      with assms \<open>mounted s\<close> SearchInput show ?thesis
        by (simp add: search_change del: step.simps) (simp add: debounce_inv_iff)
    qed
  next
    case (MerchantInput v)
    with assms True show ?thesis
      by (simp add: commit_query_same handleMerchantFilterChange_def loadAllPerks_def)
        (simp add: debounce_inv_iff)
  next
    case Submit
    with assms True show ?thesis
      by (simp add: step_Submit loadAllPerks_def debounce_inv_iff del: step.simps)
  next
    case Reset
    from assms True show ?thesis
      using True by (cases rule: debounce_inv_cases)
        (auto simp: Reset commit_def handleReset_def Let_def debounce_inv_iff
          useDebounce_effect_def useDebounce_cleanup_def setTimeout_def clearTimeout_def
          loadAllPerks_def)
  next
    case Retry
    with assms True show ?thesis
      by (simp add: commit_same loadAllPerks_def) (simp add: debounce_inv_iff)
  next
    case (Tick d)
    with assms show ?thesis by (simp add: debounce_inv_tick)
  next
    case (Settle i out)
    with assms True show ?thesis
      by (cases out)
        (simp_all add: settle_def Let_def debounce_inv_iff loadAllPerks_settled_def
          merchants_effect_def)
  next
    case Unmount
    from assms True show ?thesis
      using True by (cases rule: debounce_inv_cases)
        (simp_all add: Unmount unmount_def useDebounce_cleanup_def clearTimeout_def
          debounce_inv_iff)
  qed
qed

lemma debounce_inv_run: "debounce_inv s \<Longrightarrow> debounce_inv (run evs s)"
  by (induction evs arbitrary: s) (simp_all add: debounce_inv_step del: step.simps)

lemma debounce_inv_reachable: "debounce_inv (run evs mount)"
  by (rule debounce_inv_run [OF debounce_inv_mount])

subsection \<open>Time passing over a mounted component\<close>

lemma settled_tick:
  assumes "mounted s" "debounce_inv s" "debouncedValue s = searchQuery s"
  shows "mounted (tick d s) \<and> debouncedValue (tick d s) = searchQuery (tick d s)
         \<and> issued (tick d s) = issued s"
  using assms(2,1)
proof (cases rule: debounce_inv_cases)
  case idle
  with assms show ?thesis by (simp add: tick_idle)
next
  case (armed r)
  with assms show ?thesis
    by (cases "d < r") (simp_all add: tick_wait tick_fire fire_mounted)
qed

lemma settled_ticks:
  "mounted s \<Longrightarrow> debounce_inv s \<Longrightarrow> debouncedValue s = searchQuery s \<Longrightarrow>
   issued (run (map Tick ds) s) = issued s"
proof (induction ds arbitrary: s)
  case Nil
  then show ?case by simp
next
  case (Cons d ds)
  from settled_tick [OF Cons.prems, of d] debounce_inv_tick [OF Cons.prems(2), of d]
  have "issued (run (map Tick ds) (tick d s)) = issued (tick d s)"
    by (intro Cons.IH) simp_all
  with settled_tick [OF Cons.prems, of d] show ?case by simp
qed

lemma stable_tick:
  assumes "mounted s" "debounce_inv s" "debounce_delay \<le> d"
  shows "issued (tick d s) = issued s @
           (if searchQuery s = debouncedValue s then []
            else [\<lparr>search_param = or_undefined (trim (searchQuery s)),
                   merchant_param = or_undefined (trim (merchantFilter s))\<rparr>])
    \<and> debouncedValue (tick d s) = searchQuery s
    \<and> timers (tick d s) = []
    \<and> debounce_updates (tick d s) =
        debounce_updates s @ (if timers s = [] then [] else [searchQuery s])
    \<and> mounted (tick d s) \<and> searchQuery (tick d s) = searchQuery s
    \<and> merchantFilter (tick d s) = merchantFilter s"
  using assms(2,1)
proof (cases rule: debounce_inv_cases)
  case idle
  with assms show ?thesis by (simp add: tick_idle)
next
  case (armed r)
  with assms show ?thesis
    by (simp add: tick_fire fire_mounted loadAllPerks_def request_params_def)
qed

subsection \<open>A burst of typing\<close>

lemma typing_run:
  assumes "mounted s" "timers s = [(handler s, searchQuery s, debounce_delay)]"
    "rapid_changes (searchQuery s) rest"
  shows "mounted (run (typing rest) s)
    \<and> timers (run (typing rest) s) =
        [(handler (run (typing rest) s), searchQuery (run (typing rest) s), debounce_delay)]
    \<and> searchQuery (run (typing rest) s) = last (searchQuery s # map snd rest)
    \<and> issued (run (typing rest) s) = issued s
    \<and> debounce_updates (run (typing rest) s) = debounce_updates s
    \<and> debouncedValue (run (typing rest) s) = debouncedValue s
    \<and> merchantFilter (run (typing rest) s) = merchantFilter s"
  using assms
proof (induction rest arbitrary: s)
  case Nil
  then show ?case by simp
next
  case (Cons dv rest)
  obtain d v where dv: "dv = (d, v)" by (cases dv)
  from Cons.prems dv have d: "d < debounce_delay" and v: "v \<noteq> searchQuery s"
    and rest: "rapid_changes v rest" by simp_all
  let ?t = "tick d s"
  from Cons.prems(2) d
  have t: "?t = s\<lparr>timers := [(handler s, searchQuery s, debounce_delay - d)]\<rparr>"
    by (simp add: tick_wait)
  with Cons.prems(1) have tm: "mounted ?t" and tinv: "debounce_inv ?t"
    and tq: "v \<noteq> searchQuery ?t"
    using v by (simp_all add: debounce_inv_iff)
  let ?u = "step (SearchInput v) ?t"
  from search_change [OF tm tinv tq] t
  have u: "?u = s\<lparr>searchQuery := v, timers := [(next_handle s, v, debounce_delay)],
             handler := next_handle s, next_handle := Suc (next_handle s)\<rparr>"
    by simp
  with Cons.prems(1) rest have "mounted ?u"
    "timers ?u = [(handler ?u, searchQuery ?u, debounce_delay)]"
    "rapid_changes (searchQuery ?u) rest"
    by simp_all
  from Cons.IH [OF this] u dv show ?case
    by (simp del: step.simps(1))
qed

subsection \<open>After the unmount\<close>

lemma torn_down_step:
  assumes "\<not> mounted s" "timers s = []"
  shows "\<not> mounted (step e s) \<and> timers (step e s) = []
         \<and> debounce_updates (step e s) = debounce_updates s
         \<and> debouncedValue (step e s) = debouncedValue s"
  using assms by (cases e) (simp_all add: tick_idle settle_def Let_def)

lemma torn_down_run:
  "\<not> mounted s \<Longrightarrow> timers s = [] \<Longrightarrow>
   debounce_updates (run evs s) = debounce_updates s
   \<and> debouncedValue (run evs s) = debouncedValue s"
proof (induction evs arbitrary: s)
  case Nil
  then show ?case by simp
next
  case (Cons e evs)
  from torn_down_step [OF Cons.prems, of e] Cons.IH [of "step e s"]
  show ?case by simp
qed

subsection \<open>Reset\<close>

lemma reset_fields:
  "mounted s \<Longrightarrow>
   searchQuery (step Reset s) = [] \<and> merchantFilter (step Reset s) = []
   \<and> error (step Reset s) = [] \<and> debouncedValue (step Reset s) = debouncedValue s
   \<and> mounted (step Reset s)"
  by (simp add: commit_def handleReset_def Let_def loadAllPerks_def useDebounce_effect_def
      useDebounce_cleanup_def setTimeout_def clearTimeout_def)

lemma reset_issued:
  "mounted s \<Longrightarrow>
   issued (step Reset s) = issued s @
     (if merchantFilter s = [] then []
      else [\<lparr>search_param = or_undefined (trim (debouncedValue s)), merchant_param = None\<rparr>])"
  by (auto simp: commit_def handleReset_def Let_def loadAllPerks_def useDebounce_effect_def
      useDebounce_cleanup_def setTimeout_def clearTimeout_def request_params_def trim_Nil
      or_undefined_Nil)

lemma reset_then_wait:
  assumes "mounted s" "debounce_inv s" "debounce_delay \<le> d"
  shows "issued (run [Reset, Tick d] s) = issued (step Reset s) @
           (if debouncedValue s = [] then []
            else [\<lparr>search_param = None, merchant_param = None\<rparr>])"
proof -
  let ?r = "step Reset s"
  have inv: "debounce_inv ?r" by (rule debounce_inv_step [OF assms(2)])
  from reset_fields [OF assms(1)]
  have f: "searchQuery ?r = []" "merchantFilter ?r = []"
    and dv: "debouncedValue ?r = debouncedValue s" and m: "mounted ?r"
    by simp_all
  from stable_tick [OF m inv assms(3)] f dv
  have "issued (tick d ?r) = issued ?r @
      (if debouncedValue s = [] then [] else [\<lparr>search_param = None, merchant_param = None\<rparr>])"
    by (auto simp: trim_Nil or_undefined_Nil)
  then show ?thesis by (simp del: step.simps(4))
qed

subsection \<open>Requests are only issued by \<open>loadAllPerks\<close>\<close>

lemma request_params_present:
  "search_param (request_params s) \<noteq> Some [] \<and> merchant_param (request_params s) \<noteq> Some []"
  by (simp add: request_params_def or_undefined_cases)

lemma commit_issued:
  "set (issued (commit prev s)) \<subseteq> set (issued s) \<union> range request_params"
  by (auto simp: commit_def Let_def loadAllPerks_def useDebounce_effect_def
      useDebounce_cleanup_def setTimeout_def clearTimeout_def)

lemma fire_issued: "set (issued (fire v s)) \<subseteq> set (issued s) \<union> range request_params"
  using commit_issued
    [of "s\<lparr>debounce_updates := debounce_updates s @ [v]\<rparr>"
        "s\<lparr>debounce_updates := debounce_updates s @ [v], debouncedValue := v\<rparr>"]
  by (simp add: fire_def Let_def)

lemma fold_fire_issued:
  "set (issued (fold (\<lambda>t. fire (fst (snd t))) ts s)) \<subseteq> set (issued s) \<union> range request_params"
proof (induction ts arbitrary: s)
  case Nil
  then show ?case by simp
next
  case (Cons t ts)
  from Cons.IH [of "fire (fst (snd t)) s"] fire_issued [of "fst (snd t)" s]
  show ?case by auto
qed

lemma step_issued: "set (issued (step e s)) \<subseteq> set (issued s) \<union> range request_params"
proof (cases e)
  case (Tick d)
  from fold_fire_issued
    [of "sort_key (\<lambda>t. snd (snd t)) (filter (\<lambda>t. snd (snd t) \<le> d) (timers s))"
        "s\<lparr>timers := map (\<lambda>(h, v, r). (h, v, r - d)) (filter (\<lambda>t. \<not> snd (snd t) \<le> d) (timers s))\<rparr>"]
  show ?thesis by (simp add: Tick tick_def Let_def)
next
  case (Settle i out)
  then show ?thesis
    by (cases out) (auto simp: settle_def Let_def loadAllPerks_settled_def merchants_effect_def)
next
  case (SearchInput v)
  with commit_issued [of s "handleSearchQueryChange v s"] show ?thesis
    by (simp add: handleSearchQueryChange_def)
next
  case (MerchantInput v)
  with commit_issued [of s "handleMerchantFilterChange v s"] show ?thesis
    by (simp add: handleMerchantFilterChange_def)
next
  case Submit
  then show ?thesis by (auto simp: commit_same handleSearch_def loadAllPerks_def)
next
  case Reset
  with commit_issued [of s "handleReset s"] show ?thesis
    by (simp add: handleReset_def)
next
  case Retry
  then show ?thesis by (auto simp: commit_same loadAllPerks_def)
next
  case Unmount
  then show ?thesis by (simp add: unmount_def useDebounce_cleanup_def clearTimeout_def)
qed

lemma run_issued: "set (issued (run evs s)) \<subseteq> set (issued s) \<union> range request_params"
proof (induction evs arbitrary: s)
  case Nil
  then show ?case by simp
next
  case (Cons e evs)
  from Cons.IH [of "step e s"] step_issued [of e s] show ?case by auto
qed

lemma mount_issued: "set (issued mount) \<subseteq> range request_params"
  by (simp add: mount_def merchants_effect_def loadAllPerks_def useDebounce_effect_def
      setTimeout_def initial_def)

section \<open>Explicit submit (C1)\<close>

text \<open>
  C1, as stated, fails. The user has typed \<open>coffee\<close> and submits before the debounce
  delay has elapsed: the request goes out at once, but \<open>loadAllPerks\<close> reads the
  debounced text, which is still empty, so the \<open>search\<close> parameter is absent although
  the input holds \<open>coffee\<close>.
\<close>

theorem submit_stale_counterexample:
  "searchQuery (run [SearchInput (js ''coffee''), Submit] mount) = js ''coffee'' \<and>
   issued (run [SearchInput (js ''coffee''), Submit] mount) =
     [\<lparr>search_param = None, merchant_param = None\<rparr>,
      \<lparr>search_param = None, merchant_param = None\<rparr>]"
  by (simp add: mount_eq eval_defs)

text \<open>
  C1, amended: an explicit submit issues a request in the same step, without waiting
  for the debounce delay, and the \<open>search\<close> parameter of that request is the trimmed
  debounced search text (absent when that is empty). The debounced text is the text
  in the input whenever no debounce timer is pending.
\<close>

theorem submit_uses_debounced:
  assumes "mounted s" "debounce_inv s"
  shows "issued (step Submit s) = issued s @
           [\<lparr>search_param = or_undefined (trim (debouncedValue s)),
             merchant_param = or_undefined (trim (merchantFilter s))\<rparr>] \<and>
         (timers s = [] \<longrightarrow> debouncedValue s = searchQuery s)"
  using assms
  by (auto simp: step_Submit loadAllPerks_def request_params_def debounce_inv_iff
      simp del: step.simps)

text \<open>
  C1, amended, once \<open>coffee\<close> has stayed in the input for the debounce delay: no
  timer is pending and the submit asks for \<open>coffee\<close>.
\<close>

theorem submit_uses_debounced_witness:
  "mounted (run [SearchInput (js ''coffee''), Tick 500] mount) \<and>
   debounce_inv (run [SearchInput (js ''coffee''), Tick 500] mount) \<and>
   timers (run [SearchInput (js ''coffee''), Tick 500] mount) = [] \<and>
   searchQuery (run [SearchInput (js ''coffee''), Tick 500] mount) = js ''coffee'' \<and>
   issued (step Submit (run [SearchInput (js ''coffee''), Tick 500] mount)) =
     [\<lparr>search_param = None, merchant_param = None\<rparr>,
      \<lparr>search_param = Some (js ''coffee''), merchant_param = None\<rparr>,
      \<lparr>search_param = Some (js ''coffee''), merchant_param = None\<rparr>]"
proof -
  let ?s = "run [SearchInput (js ''coffee''), Tick 500] mount"
  have h: "mounted ?s" "debounce_inv ?s"
    by (simp_all add: debounce_inv_reachable del: run_Cons) (simp add: mount_eq eval_defs)
  have t: "timers ?s = []" "searchQuery ?s = js ''coffee''" "merchantFilter ?s = []"
    "issued ?s = [\<lparr>search_param = None, merchant_param = None\<rparr>,
      \<lparr>search_param = Some (js ''coffee''), merchant_param = None\<rparr>]"
    by (simp_all add: mount_eq eval_defs)
  have p: "or_undefined (trim (js ''coffee'')) = Some (js ''coffee'')"
    by (simp add: or_undefined_def truthy_def trim_def is_white_space_def js_def)
  from submit_uses_debounced [OF h] t p h show ?thesis
    by (simp add: trim_Nil or_undefined_Nil del: step.simps run_Cons)
qed

section \<open>A failed request (C3)\<close>

text \<open>
  C3: issuing a request leaves \<open>perks\<close> as it is, and when a pending request rejects,
  \<open>perks\<close> is unchanged, \<open>loading\<close> is false and \<open>error\<close> is non-empty: the
  collaborator's message when the error carries a (non-empty) one, the fallback
  \<open>Failed to load perks\<close> otherwise.
\<close>

theorem fetch_failure:
  assumes "mounted s" "i \<in> set (pending s)"
  shows "perks (loadAllPerks s) = perks s \<and>
         perks (step (Settle i (Rejected msg)) s) = perks s \<and>
         \<not> loading (step (Settle i (Rejected msg)) s) \<and>
         error (step (Settle i (Rejected msg)) s) \<noteq> [] \<and>
         error (step (Settle i (Rejected msg)) s) =
           (case msg of None \<Rightarrow> fallback_message
            | Some m \<Rightarrow> if m = [] then fallback_message else m)"
  using assms error_message_truthy [of msg]
  by (simp add: loadAllPerks_def settle_def loadAllPerks_settled_def error_message_def
      truthy_def split: option.split)

text \<open>C3 at the first request of a mounted component, rejected with no response body.\<close>

theorem fetch_failure_witness:
  "mounted mount \<and> 0 \<in> set (pending mount) \<and>
   perks (step (Settle 0 (Rejected None)) mount) = perks mount \<and>
   \<not> loading (step (Settle 0 (Rejected None)) mount) \<and>
   error (step (Settle 0 (Rejected None)) mount) = js ''Failed to load perks''"
proof -
  have h: "mounted mount" "0 \<in> set (pending mount)"
    by (simp_all add: mount_eq)
  show ?thesis using h fetch_failure [OF h, of None]
    by (simp add: fallback_message_def)
qed

section \<open>Request parameters (C4)\<close>

text \<open>
  C4: the request that \<open>loadAllPerks\<close> issues has no \<open>search\<close> parameter when the
  debounced search text trims to the empty string and carries the trimmed text
  otherwise, and likewise for \<open>merchant\<close> and the merchant filter; no request the
  component ever issues carries an empty string as a parameter.
\<close>

theorem fetch_params_omit_empty:
  "issued (loadAllPerks s) = issued s @
     [\<lparr>search_param = (if trim (debouncedValue s) = [] then None
                        else Some (trim (debouncedValue s))),
       merchant_param = (if trim (merchantFilter s) = [] then None
                         else Some (trim (merchantFilter s)))\<rparr>] \<and>
   (\<forall>p\<in>set (issued (run evs mount)).
      search_param p \<noteq> Some [] \<and> merchant_param p \<noteq> Some [])"
proof -
  have "p \<in> range request_params" if "p \<in> set (issued (run evs mount))" for p
    using that run_issued [of evs mount] mount_issued by auto
  then have "\<forall>p\<in>set (issued (run evs mount)).
      search_param p \<noteq> Some [] \<and> merchant_param p \<noteq> Some []"
    using request_params_present by auto
  then show ?thesis
    by (simp add: loadAllPerks_def request_params_def or_undefined_cases)
qed

text \<open>
  C4 with a merchant filter of one space and the search text \<open>tea\<close> between spaces,
  debounced.
\<close>

theorem fetch_params_omit_empty_witness:
  "issued (loadAllPerks
      (run [MerchantInput (js '' ''), SearchInput (js '' tea ''), Tick 500] mount)) =
     [\<lparr>search_param = None, merchant_param = None\<rparr>,
      \<lparr>search_param = None, merchant_param = None\<rparr>,
      \<lparr>search_param = Some (js ''tea''), merchant_param = None\<rparr>,
      \<lparr>search_param = Some (js ''tea''), merchant_param = None\<rparr>] \<and>
   \<lparr>search_param = Some (js ''tea''), merchant_param = None\<rparr>
     \<in> set (issued (run [MerchantInput (js '' ''), SearchInput (js '' tea ''), Tick 500] mount)) \<and>
   Some (js ''tea'') \<noteq> Some []"
  using fetch_params_omit_empty
    [of "run [MerchantInput (js '' ''), SearchInput (js '' tea ''), Tick 500] mount"
        "[MerchantInput (js '' ''), SearchInput (js '' tea ''), Tick 500]"]
  by (simp add: mount_eq eval_defs)

section \<open>Reset (C5)\<close>

text \<open>
  C5 is what the comment in \<open>handleReset\<close> promises (``useEffect #2 will trigger
  automatically and reload all perks''), and the code does not keep it in every
  state. The first request has been rejected, so an error is shown and both filters
  are still empty. Reset clears the error, but no dependency of the auto-search effect
  changes and the timer that fires brings no new debounced value: no request follows,
  however long one waits (here 500 ms and then 100 s more).
\<close>

theorem reset_no_fetch:
  "error (run [Tick 200, Settle 0 (Rejected None)] mount) = js ''Failed to load perks'' \<and>
   error (run [Tick 200, Settle 0 (Rejected None), Reset] mount) = [] \<and>
   issued (run [Tick 200, Settle 0 (Rejected None), Reset, Tick 500, Tick 100000] mount) =
     issued (run [Tick 200, Settle 0 (Rejected None)] mount)"
  by (simp add: mount_eq eval_defs)

text \<open>
  Where a filter is active the reload does happen. Reset sets \<open>searchQuery\<close>,
  \<open>merchantFilter\<close> and \<open>error\<close> to the empty string; if the merchant filter was
  non-empty, a request goes out at once with \<open>merchant\<close> absent and \<open>search\<close>
  carrying the trimmed debounced text (absent when that is empty), and if the debounced
  search text was non-empty, a request with both parameters absent goes out once the
  debounce delay has elapsed.
\<close>

lemma reset_refetch:
  assumes "mounted s" "debounce_inv s" "debounce_delay \<le> d"
  shows "searchQuery (step Reset s) = [] \<and> merchantFilter (step Reset s) = [] \<and>
         error (step Reset s) = [] \<and>
         (merchantFilter s \<noteq> [] \<longrightarrow>
            issued (step Reset s) = issued s @
              [\<lparr>search_param = or_undefined (trim (debouncedValue s)),
                merchant_param = None\<rparr>]) \<and>
         (debouncedValue s \<noteq> [] \<longrightarrow>
            issued (run [Reset, Tick d] s) = issued (step Reset s) @
              [\<lparr>search_param = None, merchant_param = None\<rparr>]) \<and>
         (merchantFilter s \<noteq> [] \<or> debouncedValue s \<noteq> [] \<longrightarrow>
            \<lparr>search_param = None, merchant_param = None\<rparr>
              \<in> set (drop (length (issued s)) (issued (run [Reset, Tick d] s))))"
proof -
  from reset_fields [OF assms(1)]
  have f: "searchQuery (step Reset s) = []" "merchantFilter (step Reset s) = []"
    "error (step Reset s) = []"
    by simp_all
  note w = reset_then_wait [OF assms] reset_issued [OF assms(1)]
  have "\<lparr>search_param = None, merchant_param = None\<rparr>
      \<in> set (drop (length (issued s)) (issued (run [Reset, Tick d] s)))"
    if "merchantFilter s \<noteq> [] \<or> debouncedValue s \<noteq> []"
  proof (cases "debouncedValue s = []")
    case True
    with that w show ?thesis by (simp add: trim_Nil or_undefined_Nil del: step.simps run_Cons)
  next
    case False
    with w show ?thesis by (simp del: step.simps run_Cons)
  qed
  with f w show ?thesis by (simp del: step.simps run_Cons)
qed

text \<open>
  The same with the merchant filter \<open>Acme\<close> and the debounced search text \<open>tea\<close>:
  one request at once, without the merchant, and one with no filter once the delay
  has elapsed.
\<close>

lemma reset_refetch_example:
  "mounted (run [MerchantInput (js ''Acme''), SearchInput (js ''tea''), Tick 500] mount) \<and>
   debounce_inv (run [MerchantInput (js ''Acme''), SearchInput (js ''tea''), Tick 500] mount) \<and>
   debounce_delay \<le> 500 \<and>
   merchantFilter (run [MerchantInput (js ''Acme''), SearchInput (js ''tea''), Tick 500] mount)
     = js ''Acme'' \<and>
   debouncedValue (run [MerchantInput (js ''Acme''), SearchInput (js ''tea''), Tick 500] mount)
     = js ''tea'' \<and>
   issued (run [Reset, Tick 500]
     (run [MerchantInput (js ''Acme''), SearchInput (js ''tea''), Tick 500] mount)) =
     [\<lparr>search_param = None, merchant_param = None\<rparr>,
      \<lparr>search_param = None, merchant_param = Some (js ''Acme'')\<rparr>,
      \<lparr>search_param = Some (js ''tea''), merchant_param = Some (js ''Acme'')\<rparr>,
      \<lparr>search_param = Some (js ''tea''), merchant_param = None\<rparr>,
      \<lparr>search_param = None, merchant_param = None\<rparr>]"
proof -
  let ?s = "run [MerchantInput (js ''Acme''), SearchInput (js ''tea''), Tick 500] mount"
  have s: "?s = \<lparr>perks = [], searchQuery = js ''tea'', merchantFilter = js ''Acme'',
      uniqueMerchants = [], loading = True, error = [], debouncedValue = js ''tea'',
      mounted = True, timers = [], handler = 1, next_handle = 2,
      issued = [\<lparr>search_param = None, merchant_param = None\<rparr>,
        \<lparr>search_param = None, merchant_param = Some (js ''Acme'')\<rparr>,
        \<lparr>search_param = Some (js ''tea''), merchant_param = Some (js ''Acme'')\<rparr>],
      pending = [0, 1, 2], debounce_updates = [js ''tea'']\<rparr>"
    by (simp add: mount_eq eval_defs)
  have h: "mounted ?s" "debounce_inv ?s" "debounce_delay \<le> 500"
    unfolding s by (simp_all add: debounce_inv_def debounce_delay_def)
  have n: "js ''Acme'' \<noteq> []" "js ''tea'' \<noteq> []"
    "or_undefined (trim (js ''tea'')) = Some (js ''tea'')"
    by (simp_all add: or_undefined_def truthy_def trim_def is_white_space_def js_def)
  from reset_refetch [OF h, unfolded s] n
  have "issued (run [Reset, Tick 500] ?s) =
      [\<lparr>search_param = None, merchant_param = None\<rparr>,
       \<lparr>search_param = None, merchant_param = Some (js ''Acme'')\<rparr>,
       \<lparr>search_param = Some (js ''tea''), merchant_param = Some (js ''Acme'')\<rparr>,
       \<lparr>search_param = Some (js ''tea''), merchant_param = None\<rparr>,
       \<lparr>search_param = None, merchant_param = None\<rparr>]"
    unfolding s by (simp del: step.simps run_Cons)
  moreover have "merchantFilter ?s = js ''Acme''" "debouncedValue ?s = js ''tea''"
    unfolding s by simp_all
  ultimately show ?thesis using h by (simp del: step.simps run_Cons)
qed

section \<open>Debounced typing (C6)\<close>

text \<open>
  C6, as stated, fails where it has the final value trigger a fetch. On a freshly
  mounted component the user types \<open>c\<close> and deletes it 100 ms later. The final
  value, the empty text, is the debounced value from before the burst: when the timer
  fires, \<open>setDebouncedValue\<close> changes nothing, the auto-search effect does not run,
  and the only request ever issued is the one of the mount.
\<close>

theorem debounce_burst_no_fetch_counterexample:
  "rapid_changes (js ''c'') [(100, [])] \<and>
   searchQuery (run [SearchInput (js ''c''), Tick 100, SearchInput [], Tick 500] mount) = [] \<and>
   debounce_updates (run [SearchInput (js ''c''), Tick 100, SearchInput [], Tick 500] mount)
     = [[]] \<and>
   issued (run [SearchInput (js ''c''), Tick 100, SearchInput [], Tick 500, Tick 100000] mount)
     = issued mount"
  by (simp add: mount_eq eval_defs)

text \<open>
  C6, amended: the user changes the search input to \<open>v0\<close> and then, each time less
  than the debounce delay after the change before, to the further texts of \<open>rest\<close>.
  Until the last of these changes no request is issued and the debounced value is not
  updated. Once the last text has stayed for at least the debounce delay, there has
  been exactly one debounced update, to that last text, and exactly one request, whose
  \<open>search\<close> parameter is the trimmed last text, unless the last text is the
  debounced value from before the burst: then there is no request. Waiting longer
  adds nothing.
\<close>

theorem debounce_burst:
  assumes "mounted s" "debounce_inv s" "v0 \<noteq> searchQuery s" "rapid_changes v0 rest"
    "debounce_delay \<le> d"
  shows "issued (run (SearchInput v0 # typing rest) s) = issued s \<and>
         debounce_updates (run (SearchInput v0 # typing rest) s) = debounce_updates s \<and>
         debounce_updates (run (SearchInput v0 # typing rest @ [Tick d]) s) =
           debounce_updates s @ [last (v0 # map snd rest)] \<and>
         debouncedValue (run (SearchInput v0 # typing rest @ [Tick d]) s) =
           last (v0 # map snd rest) \<and>
         issued (run (SearchInput v0 # typing rest @ [Tick d]) s) = issued s @
           (if last (v0 # map snd rest) = debouncedValue s then []
            else [\<lparr>search_param = or_undefined (trim (last (v0 # map snd rest))),
                   merchant_param = or_undefined (trim (merchantFilter s))\<rparr>]) \<and>
         run (SearchInput v0 # typing rest @ Tick d # map Tick ds) s =
           run (SearchInput v0 # typing rest @ [Tick d]) s"
proof -
  let ?u = "step (SearchInput v0) s"
  from search_change [OF assms(1-3)]
  have u: "?u = s\<lparr>searchQuery := v0, timers := [(next_handle s, v0, debounce_delay)],
             handler := next_handle s, next_handle := Suc (next_handle s)\<rparr>" .
  with assms have "mounted ?u" "timers ?u = [(handler ?u, searchQuery ?u, debounce_delay)]"
    "rapid_changes (searchQuery ?u) rest"
    by simp_all
  note burst = typing_run [OF this]
  let ?b = "run (typing rest) ?u"
  from burst u have b: "mounted ?b" "timers ?b = [(handler ?b, searchQuery ?b, debounce_delay)]"
    "searchQuery ?b = last (v0 # map snd rest)" "issued ?b = issued s"
    "debounce_updates ?b = debounce_updates s" "debouncedValue ?b = debouncedValue s"
    "merchantFilter ?b = merchantFilter s"
    by simp_all
  from b(1,2) have binv: "debounce_inv ?b" by (simp add: debounce_inv_iff)
  from stable_tick [OF b(1) binv assms(5)] b
  have t: "issued (tick d ?b) = issued s @
           (if last (v0 # map snd rest) = debouncedValue s then []
            else [\<lparr>search_param = or_undefined (trim (last (v0 # map snd rest))),
                   merchant_param = or_undefined (trim (merchantFilter s))\<rparr>])"
    "debouncedValue (tick d ?b) = last (v0 # map snd rest)"
    "timers (tick d ?b) = []"
    "debounce_updates (tick d ?b) = debounce_updates s @ [last (v0 # map snd rest)]"
    by simp_all
  from b t idle_ticks [OF t(3), of ds] show ?thesis
    by (simp add: run_append del: step.simps(1))
qed

text \<open>
  C6, amended, on a freshly mounted component: \<open>c\<close>, \<open>co\<close>, \<open>cof\<close> typed 100 ms apart, then
  500 ms of rest. The only request besides the one of the mount asks for \<open>cof\<close>.
\<close>

theorem debounce_burst_witness:
  "mounted mount \<and> debounce_inv mount \<and> js ''c'' \<noteq> searchQuery mount \<and>
   rapid_changes (js ''c'') [(100, js ''co''), (100, js ''cof'')] \<and> debounce_delay \<le> 500 \<and>
   issued (run [SearchInput (js ''c''), Tick 100, SearchInput (js ''co''), Tick 100,
                SearchInput (js ''cof'')] mount) =
     [\<lparr>search_param = None, merchant_param = None\<rparr>] \<and>
   issued (run [SearchInput (js ''c''), Tick 100, SearchInput (js ''co''), Tick 100,
                SearchInput (js ''cof''), Tick 500] mount) =
     [\<lparr>search_param = None, merchant_param = None\<rparr>,
      \<lparr>search_param = Some (js ''cof''), merchant_param = None\<rparr>] \<and>
   debounce_updates (run [SearchInput (js ''c''), Tick 100, SearchInput (js ''co''), Tick 100,
                SearchInput (js ''cof''), Tick 500] mount) = [js ''cof'']"
proof -
  have h: "mounted mount" "debounce_inv mount" "js ''c'' \<noteq> searchQuery mount"
    "rapid_changes (js ''c'') [(100, js ''co''), (100, js ''cof'')]" "debounce_delay \<le> 500"
    by (simp_all add: mounted_mount debounce_inv_mount)
      (simp_all add: mount_eq js_def debounce_delay_def)
  have p: "or_undefined (trim (js ''cof'')) = Some (js ''cof'')"
    "or_undefined (trim (merchantFilter mount)) = None"
    "js ''cof'' \<noteq> debouncedValue mount" "issued mount = [\<lparr>search_param = None, merchant_param = None\<rparr>]"
    "debounce_updates mount = []"
    by (simp_all add: mount_eq or_undefined_def truthy_def trim_def is_white_space_def js_def)
  from debounce_burst [OF h, of "[]"] p h show ?thesis
    by (simp del: step.simps run_Cons rapid_changes.simps)
qed

section \<open>Teardown (C7)\<close>

text \<open>
  C7: when the component is unmounted while a debounce timer is pending, the cleanup
  clears the timer, and whatever happens afterwards, \<open>setDebouncedValue\<close> is never
  called again and the debounced value stays as it was.
\<close>

theorem unmount_cancels_timer:
  assumes "mounted s" "debounce_inv s" "timers s \<noteq> []"
  shows "timers (step Unmount s) = [] \<and>
         debounce_updates (run evs (step Unmount s)) = debounce_updates s \<and>
         debouncedValue (run evs (step Unmount s)) = debouncedValue s"
proof -
  from assms(2,1) have u: "\<not> mounted (step Unmount s) \<and> timers (step Unmount s) = []
      \<and> debounce_updates (step Unmount s) = debounce_updates s
      \<and> debouncedValue (step Unmount s) = debouncedValue s"
    using assms(1) by (cases rule: debounce_inv_cases)
      (simp_all add: unmount_def useDebounce_cleanup_def clearTimeout_def)
  with torn_down_run [of "step Unmount s" evs] show ?thesis by simp
qed

text \<open>C7 after one keystroke: the timer for \<open>c\<close> is pending at the unmount.\<close>

theorem unmount_cancels_timer_witness:
  "mounted (run [SearchInput (js ''c'')] mount) \<and>
   debounce_inv (run [SearchInput (js ''c'')] mount) \<and>
   timers (run [SearchInput (js ''c'')] mount) = [(1, js ''c'', 500)] \<and>
   debounce_updates (run [Tick 1000] (step Unmount (run [SearchInput (js ''c'')] mount))) = [] \<and>
   debouncedValue (run [Tick 1000] (step Unmount (run [SearchInput (js ''c'')] mount))) = []"
proof -
  let ?s = "run [SearchInput (js ''c'')] mount"
  have t: "timers ?s = [(1, js ''c'', 500)]" "debounce_updates ?s = []" "debouncedValue ?s = []"
    by (simp_all add: mount_eq eval_defs)
  have h: "mounted ?s" "debounce_inv ?s" "timers ?s \<noteq> []"
    by (simp_all add: debounce_inv_reachable t del: run_Cons) (simp add: mount_eq eval_defs)
  from unmount_cancels_timer [OF h, of "[Tick 1000]"] t h show ?thesis
    by (simp del: step.simps run_Cons)
qed

section \<open>Responses out of order (C8)\<close>

text \<open>
  C8: while two requests \<open>i\<close> and \<open>j\<close> are pending and both resolve, \<open>j\<close> first
  and \<open>i\<close> last, \<open>perks\<close> ends as the response to \<open>i\<close>, whichever of the two was
  issued later.
\<close>

theorem last_response_wins:
  assumes "mounted s" "i \<in> set (pending s)" "j \<in> set (pending s)" "i \<noteq> j"
  shows "perks (step (Settle i (Resolved a)) (step (Settle j (Resolved b)) s)) = a"
  using assms by (simp add: settle_def loadAllPerks_settled_def merchants_effect_def)

text \<open>
  C8 with the request of the mount (0) and the request for the merchant \<open>Acme\<close> (1)
  both pending: the newer one resolves first, the older one last, and the unfiltered
  list of the older request stays.
\<close>

theorem last_response_wins_witness:
  "pending (run [MerchantInput (js ''Acme'')] mount) = [0, 1] \<and>
   mounted (run [MerchantInput (js ''Acme'')] mount) \<and>
   perks (run [MerchantInput (js ''Acme''),
       Settle 1 (Resolved
         [\<lparr>perk_id = js ''1'', title = js ''Free coffee'', category = js ''food'',
           merchant = Some (js ''Acme''), description = None\<rparr>]),
       Settle 0 (Resolved
         [\<lparr>perk_id = js ''1'', title = js ''Free coffee'', category = js ''food'',
           merchant = Some (js ''Acme''), description = None\<rparr>,
          \<lparr>perk_id = js ''2'', title = js ''Gym pass'', category = js ''health'',
           merchant = Some (js ''Fit''), description = None\<rparr>])] mount) =
     [\<lparr>perk_id = js ''1'', title = js ''Free coffee'', category = js ''food'',
       merchant = Some (js ''Acme''), description = None\<rparr>,
      \<lparr>perk_id = js ''2'', title = js ''Gym pass'', category = js ''health'',
       merchant = Some (js ''Fit''), description = None\<rparr>]"
proof -
  let ?s = "run [MerchantInput (js ''Acme'')] mount"
  have p: "pending ?s = [0, 1]" and m: "mounted ?s"
    by (simp_all add: mount_eq eval_defs)
  from p have h: "0 \<in> set (pending ?s)" "1 \<in> set (pending ?s)" "(0::nat) \<noteq> 1"
    by (simp_all del: run_Cons)
  from last_response_wins [OF m h] p m show ?thesis
    by (simp del: step.simps)
qed

section \<open>Mounting (C10)\<close>

text \<open>
  C10: a freshly mounted component has \<open>loading\<close> true, no perks and no error, and
  has issued exactly one request, with both parameters absent; the timer armed at the
  mount brings no second request, however time passes.
\<close>

theorem mount_initial_fetch:
  "loading mount \<and> perks mount = [] \<and> error mount = [] \<and>
   issued mount = [\<lparr>search_param = None, merchant_param = None\<rparr>] \<and>
   issued (run (map Tick ds) mount) = [\<lparr>search_param = None, merchant_param = None\<rparr>]"
  using settled_ticks [OF mounted_mount debounce_inv_mount, of ds]
  by (simp add: mount_eq)

text \<open>C10 with 100 ms, 400 ms and one second passing after the mount.\<close>

theorem mount_initial_fetch_witness:
  "loading mount \<and> perks mount = [] \<and> error mount = [] \<and>
   issued mount = [\<lparr>search_param = None, merchant_param = None\<rparr>] \<and>
   issued (run [Tick 100, Tick 400, Tick 1000] mount) =
     [\<lparr>search_param = None, merchant_param = None\<rparr>]"
  using mount_initial_fetch [of "[100, 400, 1000]"]
  by (simp del: step.simps run_Cons run_Nil add: run_def)

section \<open>The derived merchant list (C2, C9)\<close>

lemma set_add_all_set: "set (set_add_all acc xs) = set acc \<union> set xs"
  by (induction xs arbitrary: acc) auto

lemma set_add_all_distinct: "distinct acc \<Longrightarrow> distinct (set_add_all acc xs)"
  by (induction xs arbitrary: acc) auto

lemma upt_comprehension_Suc:
  "concat (map f [0..<Suc n]) = f 0 @ concat (map (\<lambda>i. f (Suc i)) [0..<n])"
proof -
  have "[0..<Suc n] = 0 # map Suc [0..<n]"
    by (simp add: upt_conv_Cons map_Suc_upt del: upt_Suc)
  then show ?thesis by (simp add: comp_def del: upt_Suc)
qed

lemma set_add_all_first:
  "set_add_all acc xs =
     acc @ [xs ! i. i \<leftarrow> [0..<length xs], xs ! i \<notin> set acc \<union> set (take i xs)]"
proof (induction xs arbitrary: acc)
  case Nil
  then show ?case by simp
next
  case (Cons x xs)
  show ?case
    by (simp add: Cons.IH upt_comprehension_Suc del: upt_Suc)
      (auto intro!: arg_cong [where f = concat])
qed

lemma new_Set_first:
  "new_Set xs = [xs ! i. i \<leftarrow> [0..<length xs], xs ! i \<notin> set (take i xs)]"
  by (simp add: new_Set_def set_add_all_first)

lemma merchants_of_comprehension:
  "merchants_of ps = [m. Some m \<leftarrow> map merchant ps, trim m \<noteq> []]"
  by (induction ps)
    (auto simp: merchants_of_def keep_merchant_def truthy_def trim_Nil split: option.split)

lemma set_merchants_of:
  "set (merchants_of ps) = {m. \<exists>p\<in>set ps. merchant p = Some m \<and> trim m \<noteq> []}"
  by (induction ps)
    (auto simp: merchants_of_def keep_merchant_def truthy_def trim_Nil split: option.splits)

lemma fire_merchants:
  "perks (fire v s) = perks s \<and> uniqueMerchants (fire v s) = uniqueMerchants s"
  by (simp add: fire_def commit_def Let_def loadAllPerks_def)

lemma fold_fire_merchants:
  "perks (fold (\<lambda>t. fire (fst (snd t))) ts s) = perks s
   \<and> uniqueMerchants (fold (\<lambda>t. fire (fst (snd t))) ts s) = uniqueMerchants s"
  by (induction ts arbitrary: s) (simp_all add: fire_merchants)

lemma commit_merchants:
  "perks (commit prev s) = perks s \<and> uniqueMerchants (commit prev s) = uniqueMerchants s"
  by (simp add: commit_def Let_def loadAllPerks_def useDebounce_effect_def
      useDebounce_cleanup_def setTimeout_def clearTimeout_def)

lemma derived_step:
  assumes "uniqueMerchants s = unique_of (perks s)"
  shows "uniqueMerchants (step e s) = unique_of (perks (step e s))"
proof (cases e)
  case (Tick d)
  with assms show ?thesis by (simp add: tick_def Let_def fold_fire_merchants)
next
  case (Settle i out)
  with assms show ?thesis
    by (cases out) (simp_all add: settle_def Let_def loadAllPerks_settled_def merchants_effect_def)
qed (use assms in \<open>simp_all add: commit_merchants handleSearch_def handleSearchQueryChange_def
      handleMerchantFilterChange_def handleReset_def loadAllPerks_def unmount_def
      useDebounce_cleanup_def clearTimeout_def\<close>)

lemma derived_run:
  "uniqueMerchants s = unique_of (perks s) \<Longrightarrow>
   uniqueMerchants (run evs s) = unique_of (perks (run evs s))"
  by (induction evs arbitrary: s) (simp_all add: derived_step del: step.simps)

lemma merchants_effect_unique: "uniqueMerchants (merchants_effect s) = unique_of (perks s)"
  by (simp add: merchants_effect_def)

lemma derived_mount: "uniqueMerchants mount = unique_of (perks mount)"
  by (simp add: mount_def merchants_effect_def)

text \<open>
  C2, as stated, fails. The only perk of the response has the merchant \<open>Acme\<close> with a
  leading space. The derived list holds the field as it is, with the space; the set
  of trimmed names holds \<open>Acme\<close> without it.
\<close>

theorem uniqueMerchants_untrimmed_counterexample:
  "uniqueMerchants (run [Settle 0 (Resolved
       [\<lparr>perk_id = js ''1'', title = js ''Free coffee'', category = js ''food'',
         merchant = Some (js '' Acme''), description = None\<rparr>])] mount) = [js '' Acme''] \<and>
   spec_uniqueMerchants (perks (run [Settle 0 (Resolved
       [\<lparr>perk_id = js ''1'', title = js ''Free coffee'', category = js ''food'',
         merchant = Some (js '' Acme''), description = None\<rparr>])] mount)) = {js ''Acme''} \<and>
   set (uniqueMerchants (run [Settle 0 (Resolved
       [\<lparr>perk_id = js ''1'', title = js ''Free coffee'', category = js ''food'',
         merchant = Some (js '' Acme''), description = None\<rparr>])] mount)) \<noteq>
   spec_uniqueMerchants (perks (run [Settle 0 (Resolved
       [\<lparr>perk_id = js ''1'', title = js ''Free coffee'', category = js ''food'',
         merchant = Some (js '' Acme''), description = None\<rparr>])] mount))"
  by (simp add: mount_eq eval_defs spec_uniqueMerchants_def map_filter_simps)

text \<open>
  C2, amended: at every point after the merchant effect has run for the current
  \<open>perks\<close> list, whatever the list holds, \<open>uniqueMerchants\<close> has no duplicates and
  its elements are exactly the \<open>merchant\<close> fields of the current perks that are
  non-empty after trimming, each as the field holds it (not trimmed); and it is never
  set apart from \<open>perks\<close>.

  The first three conjuncts are about the effect run on any state \<open>s\<close>, also one whose
  \<open>perks\<close> has just been replaced while \<open>uniqueMerchants\<close> is still the old list (the
  render between \<open>setPerks\<close> and the effect). The last one says that once an event and
  the effects it triggers have completed, \<open>uniqueMerchants\<close> is what the effect gives
  for the current \<open>perks\<close>: no event sets one without the other.
\<close>

theorem uniqueMerchants_derived:
  "perks (merchants_effect s) = perks s \<and>
   distinct (uniqueMerchants (merchants_effect s)) \<and>
   set (uniqueMerchants (merchants_effect s)) =
     {m. \<exists>p\<in>set (perks s). merchant p = Some m \<and> trim m \<noteq> []} \<and>
   uniqueMerchants (run evs mount) = uniqueMerchants (merchants_effect (run evs mount))"
  by (simp add: derived_run [OF derived_mount] merchants_effect_def unique_of_def new_Set_def
      set_add_all_set set_add_all_distinct set_merchants_of)

text \<open>
  C2, amended, on a response with \<open>Acme\<close>, \<open>Acme\<close> after a space, a perk without
  merchant, a merchant of two spaces, and \<open>Acme\<close> again: before the effect runs on the
  new list \<open>uniqueMerchants\<close> is still empty, after it the two kept values are there,
  and so they are in the state the response leaves.
\<close>

theorem uniqueMerchants_derived_witness:
  "uniqueMerchants (mount\<lparr>perks :=
       [\<lparr>perk_id = js ''1'', title = js ''a'', category = js ''food'',
         merchant = Some (js ''Acme''), description = None\<rparr>,
        \<lparr>perk_id = js ''2'', title = js ''b'', category = js ''food'',
         merchant = Some (js '' Acme''), description = None\<rparr>,
        \<lparr>perk_id = js ''3'', title = js ''c'', category = js ''food'',
         merchant = None, description = None\<rparr>,
        \<lparr>perk_id = js ''4'', title = js ''d'', category = js ''food'',
         merchant = Some (js ''  ''), description = None\<rparr>,
        \<lparr>perk_id = js ''5'', title = js ''e'', category = js ''food'',
         merchant = Some (js ''Acme''), description = None\<rparr>], loading := False\<rparr>) = [] \<and>
   set (uniqueMerchants (merchants_effect (mount\<lparr>perks :=
       [\<lparr>perk_id = js ''1'', title = js ''a'', category = js ''food'',
         merchant = Some (js ''Acme''), description = None\<rparr>,
        \<lparr>perk_id = js ''2'', title = js ''b'', category = js ''food'',
         merchant = Some (js '' Acme''), description = None\<rparr>,
        \<lparr>perk_id = js ''3'', title = js ''c'', category = js ''food'',
         merchant = None, description = None\<rparr>,
        \<lparr>perk_id = js ''4'', title = js ''d'', category = js ''food'',
         merchant = Some (js ''  ''), description = None\<rparr>,
        \<lparr>perk_id = js ''5'', title = js ''e'', category = js ''food'',
         merchant = Some (js ''Acme''), description = None\<rparr>], loading := False\<rparr>))) =
     {js ''Acme'', js '' Acme''} \<and>
   uniqueMerchants (run [Settle 0 (Resolved
       [\<lparr>perk_id = js ''1'', title = js ''a'', category = js ''food'',
         merchant = Some (js ''Acme''), description = None\<rparr>,
        \<lparr>perk_id = js ''2'', title = js ''b'', category = js ''food'',
         merchant = Some (js '' Acme''), description = None\<rparr>,
        \<lparr>perk_id = js ''3'', title = js ''c'', category = js ''food'',
         merchant = None, description = None\<rparr>,
        \<lparr>perk_id = js ''4'', title = js ''d'', category = js ''food'',
         merchant = Some (js ''  ''), description = None\<rparr>,
        \<lparr>perk_id = js ''5'', title = js ''e'', category = js ''food'',
         merchant = Some (js ''Acme''), description = None\<rparr>])] mount) =
     [js ''Acme'', js '' Acme'']"
proof -
  let ?ps = "[\<lparr>perk_id = js ''1'', title = js ''a'', category = js ''food'',
         merchant = Some (js ''Acme''), description = None\<rparr>,
        \<lparr>perk_id = js ''2'', title = js ''b'', category = js ''food'',
         merchant = Some (js '' Acme''), description = None\<rparr>,
        \<lparr>perk_id = js ''3'', title = js ''c'', category = js ''food'',
         merchant = None, description = None\<rparr>,
        \<lparr>perk_id = js ''4'', title = js ''d'', category = js ''food'',
         merchant = Some (js ''  ''), description = None\<rparr>,
        \<lparr>perk_id = js ''5'', title = js ''e'', category = js ''food'',
         merchant = Some (js ''Acme''), description = None\<rparr>]"
  let ?s = "mount\<lparr>perks := ?ps, loading := False\<rparr>"
  let ?evs = "[Settle 0 (Resolved ?ps)]"
  have stale: "uniqueMerchants ?s = []"
    by (simp add: mount_eq)
  have p: "perks ?s = ?ps" "perks (run ?evs mount) = ?ps"
    by (simp_all add: mount_eq settle_def loadAllPerks_settled_def merchants_effect_def)
  have u: "unique_of ?ps = [js ''Acme'', js '' Acme'']"
    by (simp add: unique_of_def new_Set_def merchants_of_def keep_merchant_def truthy_def
        trim_def is_white_space_def js_def)
  have e: "uniqueMerchants (merchants_effect ?s) = unique_of ?ps"
    "uniqueMerchants (merchants_effect (run ?evs mount)) = unique_of ?ps"
    by (simp_all only: merchants_effect_unique p)
  from uniqueMerchants_derived [of ?s ?evs] stale show ?thesis
    by (simp only: e u) simp
qed

text \<open>
  C9: in every state the component reaches, \<open>uniqueMerchants\<close> lists the kept
  merchant values (the defined \<open>merchant\<close> fields of \<open>perks\<close>, in the order of
  \<open>perks\<close>, that are non-empty after trimming) in the order of their first
  occurrence: the value at a position is listed when it does not occur at an earlier
  position.
\<close>

theorem uniqueMerchants_order:
  "uniqueMerchants (run evs mount) =
     (let ms = [m. Some m \<leftarrow> map merchant (perks (run evs mount)), trim m \<noteq> []]
      in [ms ! i. i \<leftarrow> [0..<length ms], ms ! i \<notin> set (take i ms)])"
  by (simp only: derived_run [OF derived_mount] unique_of_def new_Set_first
      merchants_of_comprehension Let_def)

text \<open>C9 on a response with the merchants \<open>Fit\<close>, \<open>Acme\<close>, \<open>Fit\<close>, none, \<open>Acme\<close>, \<open>Zed\<close>.\<close>

theorem uniqueMerchants_order_witness:
  "uniqueMerchants (run [Tick 50, Settle 0 (Resolved
       [\<lparr>perk_id = js ''1'', title = js ''a'', category = js ''health'',
         merchant = Some (js ''Fit''), description = None\<rparr>,
        \<lparr>perk_id = js ''2'', title = js ''b'', category = js ''food'',
         merchant = Some (js ''Acme''), description = None\<rparr>,
        \<lparr>perk_id = js ''3'', title = js ''c'', category = js ''health'',
         merchant = Some (js ''Fit''), description = None\<rparr>,
        \<lparr>perk_id = js ''4'', title = js ''d'', category = js ''food'',
         merchant = None, description = None\<rparr>,
        \<lparr>perk_id = js ''5'', title = js ''e'', category = js ''food'',
         merchant = Some (js ''Acme''), description = None\<rparr>,
        \<lparr>perk_id = js ''6'', title = js ''f'', category = js ''travel'',
         merchant = Some (js ''Zed''), description = None\<rparr>])] mount) =
     [js ''Fit'', js ''Acme'', js ''Zed'']"
proof -
  let ?ps = "[\<lparr>perk_id = js ''1'', title = js ''a'', category = js ''health'',
         merchant = Some (js ''Fit''), description = None\<rparr>,
        \<lparr>perk_id = js ''2'', title = js ''b'', category = js ''food'',
         merchant = Some (js ''Acme''), description = None\<rparr>,
        \<lparr>perk_id = js ''3'', title = js ''c'', category = js ''health'',
         merchant = Some (js ''Fit''), description = None\<rparr>,
        \<lparr>perk_id = js ''4'', title = js ''d'', category = js ''food'',
         merchant = None, description = None\<rparr>,
        \<lparr>perk_id = js ''5'', title = js ''e'', category = js ''food'',
         merchant = Some (js ''Acme''), description = None\<rparr>,
        \<lparr>perk_id = js ''6'', title = js ''f'', category = js ''travel'',
         merchant = Some (js ''Zed''), description = None\<rparr>]"
  have p: "perks (run [Tick 50, Settle 0 (Resolved ?ps)] mount) = ?ps"
    by (simp add: mount_eq eval_defs)
  have m: "[m. Some m \<leftarrow> map merchant ?ps, trim m \<noteq> []]
      = [js ''Fit'', js ''Acme'', js ''Fit'', js ''Acme'', js ''Zed'']"
    by (simp add: trim_def is_white_space_def js_def)
  have "[0..<5] = [0, 1, 2, 3, 4::nat]"
    by (simp add: upt_rec)
  then have f: "(let ms = [js ''Fit'', js ''Acme'', js ''Fit'', js ''Acme'', js ''Zed'']
       in [ms ! i. i \<leftarrow> [0..<length ms], ms ! i \<notin> set (take i ms)])
      = [js ''Fit'', js ''Acme'', js ''Zed'']"
    by (simp add: Let_def js_def)
  from uniqueMerchants_order [of "[Tick 50, Settle 0 (Resolved ?ps)]"] show ?thesis
    by (simp only: p m f)
qed

end
